theory Spec2Isabelle
  imports Main "HOL-Library.AList" "HOL-Library.Sublist"
begin

section \<open>The object store\<close>

text \<open>
  The program is one Python class, \<^verbatim>\<open>SelfObjectModel\<close>. Its instances, their
  \<^verbatim>\<open>slots\<close> dictionaries and their \<^verbatim>\<open>parent_slots\<close> and \<^verbatim>\<open>messages\<close> lists are
  mutable and shared by reference, and the lookup compares objects by \<^verbatim>\<open>id\<close>. The
  model therefore keeps an explicit store: an object, a dictionary and a list are each
  named by their position in the store, and a position is the identity.

  A dictionary is an association list with distinct keys, in insertion order (the order
  \<^verbatim>\<open>list(self.slots.keys())\<close> shows). Slot values and parents are objects, messages
  are strings: the containers are read at the types the class uses them at.
\<close>

type_synonym addr = nat
type_synonym dref = nat
type_synonym lref = nat
type_synonym fid = nat

text \<open>The host values a \<^verbatim>\<open>primitive_value\<close> holds; Python's \<^verbatim>\<open>None\<close> is the
  \<open>None\<close> of the option type in the field below.\<close>

datatype pval = PInt int | PBool bool | PStr string

record obj =
  slots :: dref
  parent_slots :: lref
  messages :: lref
  primitive_value :: "pval option"
  primitive_function :: "fid option"

record heap =
  objs :: "obj list"
  dicts :: "(string \<times> addr) list list"
  plists :: "addr list list"
  mlists :: "string list list"

text \<open>What an evaluation returns: an object, a host value produced by a primitive
  function, or \<^verbatim>\<open>None\<close> (the initial \<^verbatim>\<open>result\<close> of \<^verbatim>\<open>evaluate\<close>).\<close>

datatype val = VNone | VObj addr | VPrim pval

datatype pyexc = ValueError string | KeyError string | HostError string

text \<open>
  A call returns a value or raises, and either way leaves a store behind: what was
  mutated before an exception stays mutated.
\<close>

type_synonym outcome = "(pyexc + val) \<times> heap"

text \<open>
  A primitive function is a host callable. The object stores its name; the table
  \<open>P\<close> gives the callable: it receives the object it is called with and the store, and
  returns a value and a store, or raises.
\<close>

type_synonym prims = "fid \<Rightarrow> addr \<Rightarrow> heap \<Rightarrow> outcome"

definition slots_of :: "heap \<Rightarrow> addr \<Rightarrow> (string \<times> addr) list" where
  "slots_of h a = dicts h ! slots (objs h ! a)"

definition parents_of :: "heap \<Rightarrow> addr \<Rightarrow> addr list" where
  "parents_of h a = plists h ! parent_slots (objs h ! a)"

definition messages_of :: "heap \<Rightarrow> addr \<Rightarrow> string list" where
  "messages_of h a = mlists h ! messages (objs h ! a)"

text \<open>Every reference held in the store names something in the store, and a
  dictionary has each key once. Python maintains this by itself.\<close>

definition heap_ok :: "heap \<Rightarrow> bool" where
  "heap_ok h \<longleftrightarrow>
     (\<forall>ob \<in> set (objs h). slots ob < length (dicts h)
         \<and> parent_slots ob < length (plists h) \<and> messages ob < length (mlists h))
   \<and> (\<forall>d \<in> set (dicts h). distinct (map fst d) \<and> (\<forall>v \<in> set (map snd d). v < length (objs h)))
   \<and> (\<forall>ps \<in> set (plists h). \<forall>p \<in> set ps. p < length (objs h))"

section \<open>Construction and copy\<close>

definition new_dict :: "heap \<Rightarrow> (string \<times> addr) list \<Rightarrow> dref \<times> heap" where
  "new_dict h d = (length (dicts h), h\<lparr>dicts := dicts h @ [d]\<rparr>)"

definition new_plist :: "heap \<Rightarrow> addr list \<Rightarrow> lref \<times> heap" where
  "new_plist h ps = (length (plists h), h\<lparr>plists := plists h @ [ps]\<rparr>)"

definition new_mlist :: "heap \<Rightarrow> string list \<Rightarrow> lref \<times> heap" where
  "new_mlist h ms = (length (mlists h), h\<lparr>mlists := mlists h @ [ms]\<rparr>)"

text \<open>
  \<^verbatim>\<open>__init__\<close>: \<^verbatim>\<open>self.slots = slots or {}\<close> keeps the argument when it is truthy (a
  non-empty container) and builds a new empty container when it is \<^verbatim>\<open>None\<close> or empty.
\<close>

definition SelfObjectModel ::
  "heap \<Rightarrow> dref option \<Rightarrow> lref option \<Rightarrow> lref option \<Rightarrow> pval option \<Rightarrow> fid option
     \<Rightarrow> addr \<times> heap" where
  "SelfObjectModel h slots_arg parent_slots_arg messages_arg pv pf =
     (let (s, h1) = (case slots_arg of
                       Some r \<Rightarrow> if dicts h ! r \<noteq> [] then (r, h) else new_dict h []
                     | None \<Rightarrow> new_dict h []);
          (p, h2) = (case parent_slots_arg of
                       Some r \<Rightarrow> if plists h1 ! r \<noteq> [] then (r, h1) else new_plist h1 []
                     | None \<Rightarrow> new_plist h1 []);
          (m, h3) = (case messages_arg of
                       Some r \<Rightarrow> if mlists h2 ! r \<noteq> [] then (r, h2) else new_mlist h2 []
                     | None \<Rightarrow> new_mlist h2 [])
      in (length (objs h3),
          h3\<lparr>objs := objs h3 @ [\<lparr>slots = s, parent_slots = p, messages = m,
                                 primitive_value = pv, primitive_function = pf\<rparr>]\<rparr>))"

definition copy :: "heap \<Rightarrow> addr \<Rightarrow> addr \<times> heap" where
  "copy h self =
     (let ob = objs h ! self;
          (s, h1) = new_dict h (dicts h ! slots ob);
          (p, h2) = new_plist h1 (plists h1 ! parent_slots ob);
          (m, h3) = new_mlist h2 (mlists h2 ! messages ob)
      in SelfObjectModel h3 (Some s) (Some p) (Some m)
           (primitive_value ob) (primitive_function ob))"

section \<open>Slots and parents\<close>

definition assign_slot :: "heap \<Rightarrow> addr \<Rightarrow> string \<Rightarrow> addr \<Rightarrow> heap" where
  "assign_slot h self name ob =
     (let r = slots (objs h ! self)
      in h\<lparr>dicts := (dicts h)[r := AList.update name ob (dicts h ! r)]\<rparr>)"

definition SlotNotFound :: "string \<Rightarrow> pyexc" where
  "SlotNotFound name = ValueError (''Slot '' @ [CHR 0x27] @ name @ [CHR 0x27] @ '' does not exist.'')"

text \<open>\<^verbatim>\<open>make_parent\<close> returns nothing: its result is the exception raised, if any, and
  the store it leaves.\<close>

definition make_parent :: "heap \<Rightarrow> addr \<Rightarrow> string \<Rightarrow> pyexc option \<times> heap" where
  "make_parent h self name =
     (case map_of (slots_of h self) name of
        Some v \<Rightarrow>
          (let r = parent_slots (objs h ! self)
           in (None, h\<lparr>plists := (plists h)[r := plists h ! r @ [v]]\<rparr>))
      | None \<Rightarrow> (Some (SlotNotFound name), h))"

definition assign_parent_slot :: "heap \<Rightarrow> addr \<Rightarrow> string \<Rightarrow> addr \<Rightarrow> pyexc option \<times> heap" where
  "assign_parent_slot h self name ob = make_parent (assign_slot h self name ob) self name"

section \<open>Lookup\<close>

text \<open>
  \<^verbatim>\<open>_bfs_lookup\<close>: the \<^verbatim>\<open>while queue\<close> loop over the deque and the visited set of
  identities. The loop is defined as a partial function, so that its termination is a
  theorem and not an assumption: \<open>None\<close> is a loop that never returns, \<open>Some None\<close>
  is Python's \<^verbatim>\<open>return None\<close>.
\<close>

partial_function (option) bfs_loop ::
  "heap \<Rightarrow> string \<Rightarrow> addr list \<Rightarrow> addr set \<Rightarrow> addr option option" where
  [code]: "bfs_loop h message queue visited =
     (case queue of
        [] \<Rightarrow> Some None
      | current # rest \<Rightarrow>
          if current \<in> visited then bfs_loop h message rest visited
          else (case map_of (slots_of h current) message of
                  Some v \<Rightarrow> Some (Some v)
                | None \<Rightarrow>
                    bfs_loop h message
                      (rest @ filter (\<lambda>p. p \<notin> insert current visited) (parents_of h current))
                      (insert current visited)))"

definition bfs_lookup :: "heap \<Rightarrow> addr \<Rightarrow> string \<Rightarrow> addr option option" where
  "bfs_lookup h self message = bfs_loop h message [self] {}"

section \<open>Evaluation and message sending\<close>

definition MessageNotFound :: "string \<Rightarrow> pyexc" where
  "MessageNotFound message =
     ValueError (''Message '' @ [CHR 0x27] @ message @ [CHR 0x27]
                 @ '' not found in slots or parent slots.'')"

text \<open>
  \<^verbatim>\<open>evaluate\<close> and \<^verbatim>\<open>send_message\<close> call each other, and nothing bounds the depth:
  an object whose message resolves to itself evaluates for ever (Python ends it with
  a stack overflow). The functions take fuel, one unit per call or loop iteration;
  the result \<open>None\<close> says that the fuel did not suffice.

  \<open>evaluate_loop\<close> is the \<^verbatim>\<open>for message in self.messages\<close> loop. Python's list
  iterator holds the list and an index, and reads the list anew at every step.
\<close>

fun evaluate :: "prims \<Rightarrow> nat \<Rightarrow> heap \<Rightarrow> addr \<Rightarrow> outcome option"
  and evaluate_loop :: "prims \<Rightarrow> nat \<Rightarrow> heap \<Rightarrow> lref \<Rightarrow> nat \<Rightarrow> addr \<Rightarrow> val \<Rightarrow> outcome option"
  and send_message :: "prims \<Rightarrow> nat \<Rightarrow> heap \<Rightarrow> addr \<Rightarrow> string \<Rightarrow> outcome option"
where
  "evaluate P 0 h self = None"
| "evaluate P (Suc n) h self =
     (if messages_of h self \<noteq> [] then
        (case copy h self of (obj_copy, h1) \<Rightarrow>
           evaluate_loop P n h1 (messages (objs h1 ! self)) 0 obj_copy VNone)
      else (case primitive_function (objs h ! self) of
              Some f \<Rightarrow> (case copy h self of (c, h1) \<Rightarrow> Some (P f c h1))
            | None \<Rightarrow>
               (if primitive_value (objs h ! self) \<noteq> None then
                  (case copy h self of (c, h1) \<Rightarrow> Some (Inr (VObj c), h1))
                else Some (Inr (VObj self), h))))"
| "evaluate_loop P 0 h ml i obj_copy result = None"
| "evaluate_loop P (Suc n) h ml i obj_copy result =
     (if i < length (mlists h ! ml) then
        (case send_message P n h obj_copy (mlists h ! ml ! i) of
           None \<Rightarrow> None
         | Some (Inl e, h') \<Rightarrow> Some (Inl e, h')
         | Some (Inr r, h') \<Rightarrow> evaluate_loop P n h' ml (Suc i) obj_copy r)
      else Some (Inr result, h))"
| "send_message P 0 h self message = None"
| "send_message P (Suc n) h self message =
     (case bfs_lookup h self message of
        None \<Rightarrow> None
      | Some None \<Rightarrow> Some (Inl (MessageNotFound message), h)
      | Some (Some target_obj) \<Rightarrow> evaluate P n h target_obj)"


text \<open>An evaluation has the outcome \<open>r\<close> when some amount of fuel yields it.\<close>

definition evaluates :: "prims \<Rightarrow> heap \<Rightarrow> addr \<Rightarrow> outcome \<Rightarrow> bool" where
  "evaluates P h self r \<longleftrightarrow> (\<exists>n. evaluate P n h self = Some r)"

definition sends :: "prims \<Rightarrow> heap \<Rightarrow> addr \<Rightarrow> string \<Rightarrow> outcome \<Rightarrow> bool" where
  "sends P h self message r \<longleftrightarrow> (\<exists>n. send_message P n h self message = Some r)"



section \<open>Rendering\<close>

text \<open>
  \<^verbatim>\<open>__str__\<close>. Python's \<^verbatim>\<open>str\<close> on the host values is written out; its \<^verbatim>\<open>repr\<close> of
  a string, which the f-string uses for the elements of a list, is the parameter \<open>R\<close>.
\<close>

fun str_nat :: "nat \<Rightarrow> string" where
  "str_nat n = (if n < 10 then [''0123456789'' ! n]
                else str_nat (n div 10) @ [''0123456789'' ! (n mod 10)])"

definition str_int :: "int \<Rightarrow> string" where
  "str_int i = (if i < 0 then ''-'' @ str_nat (nat (- i)) else str_nat (nat i))"

fun py_str :: "pval \<Rightarrow> string" where
  "py_str (PInt i) = str_int i"
| "py_str (PBool b) = (if b then ''True'' else ''False'')"
| "py_str (PStr s) = s"

fun join :: "string \<Rightarrow> string list \<Rightarrow> string" where
  "join sep [] = []"
| "join sep [x] = x"
| "join sep (x # y # ys) = x @ sep @ join sep (y # ys)"

definition str_list :: "(string \<Rightarrow> string) \<Rightarrow> string list \<Rightarrow> string" where
  "str_list R xs = ''['' @ join '', '' (map R xs) @ '']''"

definition str_obj :: "(string \<Rightarrow> string) \<Rightarrow> heap \<Rightarrow> addr \<Rightarrow> string" where
  "str_obj R h self =
     (case primitive_value (objs h ! self) of
        Some v \<Rightarrow> py_str v
      | None \<Rightarrow>
          (if primitive_function (objs h ! self) \<noteq> None then
             ''<SelfObjectModel: primitive_function>''
           else if messages_of h self \<noteq> [] then
             ''<SelfObjectModel: messages='' @ str_list R (messages_of h self)
               @ '', slots='' @ str_list R (map fst (slots_of h self)) @ ''>''
           else ''<SelfObjectModel: slots='' @ str_list R (map fst (slots_of h self)) @ ''>''))"

definition print :: "(string \<Rightarrow> string) \<Rightarrow> heap \<Rightarrow> addr \<Rightarrow> string" where
  "print R h self = str_obj R h self"



section \<open>The primitive function of the demonstration\<close>

text \<open>\<^verbatim>\<open>def echo(call_obj): return call_obj.slots["parameter"]\<close>; a missing key raises
  \<^verbatim>\<open>KeyError\<close>.\<close>

definition echo :: "addr \<Rightarrow> heap \<Rightarrow> outcome" where
  "echo call_obj h =
     (case map_of (slots_of h call_obj) ''parameter'' of
        Some v \<Rightarrow> (Inr (VObj v), h)
      | None \<Rightarrow> (Inl (KeyError ''parameter''), h))"

section \<open>The breadth-first order\<close>

text \<open>
  The order the specification describes, written from its words and not from the loop:
  the receiver is level 0, and the next level lists the parents of each object of a
  level, object by object, in declared order. \<open>first_in_level h m q k x\<close> says that no
  object of a level before \<open>k\<close> has the slot \<open>m\<close> and that \<open>x\<close> is the first object of
  level \<open>k\<close> that has it.
\<close>

fun level :: "heap \<Rightarrow> nat \<Rightarrow> addr list \<Rightarrow> addr list" where
  "level h 0 q = q"
| "level h (Suc k) q = level h k (concat (map (parents_of h) q))"

definition has_slot :: "heap \<Rightarrow> string \<Rightarrow> addr \<Rightarrow> bool" where
  "has_slot h m y \<longleftrightarrow> map_of (slots_of h y) m \<noteq> None"

definition first_in_level :: "heap \<Rightarrow> string \<Rightarrow> addr list \<Rightarrow> nat \<Rightarrow> addr \<Rightarrow> bool" where
  "first_in_level h m q k x \<longleftrightarrow>
     (\<forall>j < k. \<forall>y \<in> set (level h j q). \<not> has_slot h m y)
   \<and> find (has_slot h m) (level h k q) = Some x"

text \<open>The invariant of the loop: a visited object does not have the slot, and each of
  its parents is visited or waits in the queue.\<close>

definition covered :: "heap \<Rightarrow> string \<Rightarrow> addr set \<Rightarrow> addr list \<Rightarrow> bool" where
  "covered h m V q \<longleftrightarrow>
     (\<forall>v \<in> V. \<not> has_slot h m v \<and> (\<forall>p \<in> set (parents_of h v). p \<in> V \<or> p \<in> set q))"

section \<open>Example stores\<close>

text \<open>The stores the theorems below are instantiated at. \<open>store_parent\<close> is the
  sixth demonstration of the source before its \<^verbatim>\<open>make_parent\<close> call: object 0 holds
  the value \<^verbatim>\<open>"blue"\<close>, object 1 has it as slot \<^verbatim>\<open>color\<close>, object 2 has object 1 as
  slot \<^verbatim>\<open>p\<close>.\<close>

definition store_parent :: heap where
  "store_parent =
     \<lparr>objs = [\<lparr>slots = 0, parent_slots = 0, messages = 0,
                primitive_value = Some (PStr ''blue''), primitive_function = None\<rparr>,
              \<lparr>slots = 1, parent_slots = 1, messages = 1,
                primitive_value = None, primitive_function = None\<rparr>,
              \<lparr>slots = 2, parent_slots = 2, messages = 2,
                primitive_value = None, primitive_function = None\<rparr>],
      dicts = [[], [(''color'', 0)], [(''p'', 1)]],
      plists = [[], [], []],
      mlists = [[], [], []]\<rparr>"

text \<open>Three objects whose primitive values are \<^verbatim>\<open>0\<close>, \<^verbatim>\<open>False\<close> and \<^verbatim>\<open>""\<close>.\<close>

definition store_falsy :: heap where
  "store_falsy =
     \<lparr>objs = [\<lparr>slots = 0, parent_slots = 0, messages = 0,
                primitive_value = Some (PInt 0), primitive_function = None\<rparr>,
              \<lparr>slots = 1, parent_slots = 1, messages = 1,
                primitive_value = Some (PBool False), primitive_function = None\<rparr>,
              \<lparr>slots = 2, parent_slots = 2, messages = 2,
                primitive_value = Some (PStr []), primitive_function = None\<rparr>],
      dicts = [[], [], []],
      plists = [[], [], []],
      mlists = [[], [], []]\<rparr>"

text \<open>The tie-break scenario: object 0 (\<^verbatim>\<open>R\<close>) has the parents 1 (\<^verbatim>\<open>P1\<close>) and 2
  (\<^verbatim>\<open>P2\<close>); \<^verbatim>\<open>P1\<close> has the parent 3 (\<^verbatim>\<open>G\<close>), whose slot \<^verbatim>\<open>k\<close> is object 4;
  \<^verbatim>\<open>P2\<close> has the slot \<^verbatim>\<open>k\<close> itself, object 5. Object 6 has a slot \<^verbatim>\<open>k\<close> of its own
  and \<^verbatim>\<open>P2\<close> as parent.\<close>

definition store_bfs :: heap where
  "store_bfs =
     \<lparr>objs = [\<lparr>slots = 0, parent_slots = 0, messages = 0,
                primitive_value = None, primitive_function = None\<rparr>,
              \<lparr>slots = 1, parent_slots = 1, messages = 1,
                primitive_value = None, primitive_function = None\<rparr>,
              \<lparr>slots = 2, parent_slots = 2, messages = 2,
                primitive_value = None, primitive_function = None\<rparr>,
              \<lparr>slots = 3, parent_slots = 3, messages = 3,
                primitive_value = None, primitive_function = None\<rparr>,
              \<lparr>slots = 4, parent_slots = 4, messages = 4,
                primitive_value = Some (PStr ''from G''), primitive_function = None\<rparr>,
              \<lparr>slots = 5, parent_slots = 5, messages = 5,
                primitive_value = Some (PStr ''from P2''), primitive_function = None\<rparr>,
              \<lparr>slots = 6, parent_slots = 6, messages = 6,
                primitive_value = None, primitive_function = None\<rparr>],
      dicts = [[], [], [(''k'', 5)], [(''k'', 4)], [], [], [(''k'', 4)]],
      plists = [[1, 2], [3], [], [], [], [], [2]],
      mlists = [[], [], [], [], [], [], []]\<rparr>"

text \<open>Two objects that are each other's parent, with no slots.\<close>

definition store_cycle :: heap where
  "store_cycle =
     \<lparr>objs = [\<lparr>slots = 0, parent_slots = 0, messages = 0,
                primitive_value = None, primitive_function = None\<rparr>,
              \<lparr>slots = 1, parent_slots = 1, messages = 1,
                primitive_value = None, primitive_function = None\<rparr>],
      dicts = [[], []],
      plists = [[1], [0]],
      mlists = [[], []]\<rparr>"


text \<open>Object 0 has the slot \<^verbatim>\<open>k\<close>, object 1; object 1 has the message \<^verbatim>\<open>k\<close> and
  no slot.\<close>

definition store_nested :: heap where
  "store_nested =
     \<lparr>objs = [\<lparr>slots = 0, parent_slots = 0, messages = 0,
                primitive_value = None, primitive_function = None\<rparr>,
              \<lparr>slots = 1, parent_slots = 1, messages = 1,
                primitive_value = None, primitive_function = None\<rparr>],
      dicts = [[(''k'', 1)], []],
      plists = [[], []],
      mlists = [[], [''k'']]\<rparr>"






section \<open>What a copy is\<close>

lemma copy_unfold:
  "copy h self =
     (let ob = objs h ! self; d = dicts h ! slots ob; ps = plists h ! parent_slots ob;
          ms = mlists h ! messages ob
      in (length (objs h),
          h\<lparr>objs := objs h @ [\<lparr>slots = (if d \<noteq> [] then length (dicts h) else Suc (length (dicts h))),
                                parent_slots = (if ps \<noteq> [] then length (plists h) else Suc (length (plists h))),
                                messages = (if ms \<noteq> [] then length (mlists h) else Suc (length (mlists h))),
                                primitive_value = primitive_value ob,
                                primitive_function = primitive_function ob\<rparr>],
            dicts := dicts h @ (if d \<noteq> [] then [d] else [[], []]),
            plists := plists h @ (if ps \<noteq> [] then [ps] else [[], []]),
            mlists := mlists h @ (if ms \<noteq> [] then [ms] else [[], []])\<rparr>))"
  by (simp add: copy_def SelfObjectModel_def new_dict_def new_plist_def new_mlist_def Let_def)

lemma copy_fst: "fst (copy h self) = length (objs h)"
  by (simp add: copy_unfold Let_def)

lemma copy_objs: "objs (snd (copy h self)) = objs h @ [objs (snd (copy h self)) ! length (objs h)]"
  by (simp add: copy_unfold Let_def)

lemma copy_length_objs: "length (objs (snd (copy h self))) = Suc (length (objs h))"
  by (simp add: copy_unfold Let_def)

lemma copy_objs_old: "a < length (objs h) \<Longrightarrow> objs (snd (copy h self)) ! a = objs h ! a"
  by (simp add: copy_unfold Let_def nth_append)

lemma copy_prefix:
  "prefix (dicts h) (dicts (snd (copy h self)))"
  "prefix (plists h) (plists (snd (copy h self)))"
  "prefix (mlists h) (mlists (snd (copy h self)))"
  by (simp_all add: copy_unfold Let_def)

lemma copy_fresh:
  "length (dicts h) \<le> slots (objs (snd (copy h self)) ! length (objs h))"
  "length (plists h) \<le> parent_slots (objs (snd (copy h self)) ! length (objs h))"
  "length (mlists h) \<le> messages (objs (snd (copy h self)) ! length (objs h))"
  by (simp_all add: copy_unfold Let_def)

lemma copy_contents:
  "slots_of (snd (copy h self)) (length (objs h)) = slots_of h self"
  "parents_of (snd (copy h self)) (length (objs h)) = parents_of h self"
  "messages_of (snd (copy h self)) (length (objs h)) = messages_of h self"
  "primitive_value (objs (snd (copy h self)) ! length (objs h)) = primitive_value (objs h ! self)"
  "primitive_function (objs (snd (copy h self)) ! length (objs h)) = primitive_function (objs h ! self)"
  by (simp_all add: copy_unfold Let_def slots_of_def parents_of_def messages_of_def nth_append)

lemma prefix_nth: "prefix xs ys \<Longrightarrow> i < length xs \<Longrightarrow> ys ! i = xs ! i"
  by (auto simp: prefix_def nth_append)

lemma heap_ok_copy:
  assumes "heap_ok h" "self < length (objs h)"
  shows "heap_ok (snd (copy h self))"
proof -
  let ?ob = "objs h ! self"
  from assms have ob: "?ob \<in> set (objs h)" by simp
  with assms(1) have r: "slots ?ob < length (dicts h)" "parent_slots ?ob < length (plists h)"
    unfolding heap_ok_def by auto
  from r assms(1) have d: "dicts h ! slots ?ob \<in> set (dicts h)" "plists h ! parent_slots ?ob \<in> set (plists h)"
    by simp_all
  with assms(1) have c: "distinct (map fst (dicts h ! slots ?ob))"
     "\<forall>v \<in> set (map snd (dicts h ! slots ?ob)). v < length (objs h)"
     "\<forall>p \<in> set (plists h ! parent_slots ?ob). p < length (objs h)"
    unfolding heap_ok_def by blast+
  show ?thesis
    using assms(1) c unfolding heap_ok_def copy_unfold Let_def
    by (auto simp: less_Suc_eq)
qed

lemma heap_ok_refs:
  assumes "heap_ok h" "a < length (objs h)"
  shows "slots (objs h ! a) < length (dicts h)"
    and "parent_slots (objs h ! a) < length (plists h)"
    and "messages (objs h ! a) < length (mlists h)"
  using assms unfolding heap_ok_def by simp_all

lemma copy_old_contents:
  assumes "heap_ok h" "a < length (objs h)"
  shows "slots_of (snd (copy h self)) a = slots_of h a"
    and "parents_of (snd (copy h self)) a = parents_of h a"
    and "messages_of (snd (copy h self)) a = messages_of h a"
  using heap_ok_refs [OF assms] assms(2)
  by (simp_all add: slots_of_def parents_of_def messages_of_def copy_objs_old
      prefix_nth [OF copy_prefix(1)] prefix_nth [OF copy_prefix(2)] prefix_nth [OF copy_prefix(3)])

lemma assign_slot_objs: "objs (assign_slot h a name x) = objs h"
  by (simp add: assign_slot_def Let_def)

lemma assign_slot_other:
  "slots (objs h ! b) \<noteq> slots (objs h ! a) \<Longrightarrow> slots_of (assign_slot h a name x) b = slots_of h b"
  by (simp add: assign_slot_def Let_def slots_of_def)

lemma assign_slot_self:
  "slots (objs h ! a) < length (dicts h) \<Longrightarrow>
   slots_of (assign_slot h a name x) a = AList.update name x (slots_of h a)"
  by (simp add: assign_slot_def Let_def slots_of_def)

lemma init_slots:
  assumes "SelfObjectModel h sa pa ma pv pf = (a, h')"
  shows "(sa = Some r \<and> r < length (dicts h) \<and> dicts h ! r \<noteq> [] \<longrightarrow>
            slots (objs h' ! a) = r
          \<and> (\<forall>d. slots_of (h'\<lparr>dicts := (dicts h')[r := d]\<rparr>) a = d))
       \<and> (sa = None \<or> (sa = Some r \<and> dicts h ! r = []) \<longrightarrow>
            slots (objs h' ! a) = length (dicts h) \<and> slots_of h' a = []
          \<and> (\<forall>r' < length (dicts h). \<forall>d. slots_of (h'\<lparr>dicts := (dicts h')[r' := d]\<rparr>) a = []))"
  using assms
  by (auto simp: SelfObjectModel_def new_dict_def new_plist_def new_mlist_def Let_def
      slots_of_def nth_append split: option.splits if_splits prod.splits)

lemma init_parent_slots:
  assumes "SelfObjectModel h sa pa ma pv pf = (a, h')"
  shows "(pa = Some r \<and> r < length (plists h) \<and> plists h ! r \<noteq> [] \<longrightarrow>
            parent_slots (objs h' ! a) = r
          \<and> (\<forall>ps. parents_of (h'\<lparr>plists := (plists h')[r := ps]\<rparr>) a = ps))
       \<and> (pa = None \<or> (pa = Some r \<and> plists h ! r = []) \<longrightarrow>
            parent_slots (objs h' ! a) = length (plists h) \<and> parents_of h' a = []
          \<and> (\<forall>r' < length (plists h). \<forall>ps. parents_of (h'\<lparr>plists := (plists h')[r' := ps]\<rparr>) a = []))"
  using assms
  by (auto simp: SelfObjectModel_def new_dict_def new_plist_def new_mlist_def Let_def
      parents_of_def nth_append split: option.splits if_splits prod.splits)

lemma init_messages:
  assumes "SelfObjectModel h sa pa ma pv pf = (a, h')"
  shows "(ma = Some r \<and> r < length (mlists h) \<and> mlists h ! r \<noteq> [] \<longrightarrow>
            messages (objs h' ! a) = r
          \<and> (\<forall>ms. messages_of (h'\<lparr>mlists := (mlists h')[r := ms]\<rparr>) a = ms))
       \<and> (ma = None \<or> (ma = Some r \<and> mlists h ! r = []) \<longrightarrow>
            messages (objs h' ! a) = length (mlists h) \<and> messages_of h' a = []
          \<and> (\<forall>r' < length (mlists h). \<forall>ms. messages_of (h'\<lparr>mlists := (mlists h')[r' := ms]\<rparr>) a = []))"
  using assms
  by (auto simp: SelfObjectModel_def new_dict_def new_plist_def new_mlist_def Let_def
      messages_of_def nth_append split: option.splits if_splits prod.splits)

section \<open>The lookup loop\<close>

lemma bfs_loop_Nil: "bfs_loop h m [] V = Some None"
  by (subst bfs_loop.simps) simp

lemma bfs_loop_Cons:
  "bfs_loop h m (x # rest) V =
     (if x \<in> V then bfs_loop h m rest V
      else (case map_of (slots_of h x) m of
              Some v \<Rightarrow> Some (Some v)
            | None \<Rightarrow> bfs_loop h m (rest @ filter (\<lambda>p. p \<notin> insert x V) (parents_of h x))
                        (insert x V)))"
  by (subst bfs_loop.simps) simp

lemma heap_ok_parents:
  assumes "heap_ok h" "a < length (objs h)"
  shows "\<forall>p \<in> set (parents_of h a). p < length (objs h)"
proof -
  from heap_ok_refs(2) [OF assms] have "parents_of h a \<in> set (plists h)"
    by (simp add: parents_of_def)
  with assms(1) show ?thesis unfolding heap_ok_def by blast
qed

text \<open>The induction the loop runs by: a visited object is dropped from the queue, and
  a new one leaves one object fewer to visit.\<close>

lemma bfs_induct [consumes 2, case_names Nil Skip Visit]:
  assumes ok: "heap_ok h" and q: "\<forall>x \<in> set q. x < length (objs h)"
    and nil: "\<And>V. Q [] V"
    and skip: "\<And>x rest V. x \<in> V \<Longrightarrow> \<forall>y \<in> set rest. y < length (objs h) \<Longrightarrow> Q rest V
                 \<Longrightarrow> Q (x # rest) V"
    and visit: "\<And>x rest V. x \<notin> V \<Longrightarrow> x < length (objs h)
                 \<Longrightarrow> \<forall>y \<in> set rest. y < length (objs h)
                 \<Longrightarrow> Q (rest @ filter (\<lambda>p. p \<notin> insert x V) (parents_of h x)) (insert x V)
                 \<Longrightarrow> Q (x # rest) V"
  shows "Q q V"
  using q
proof (induction "card ({..<length (objs h)} - V)" arbitrary: q V rule: less_induct)
  case less
  show ?case using less.prems
  proof (induction q)
    case Nil
    show ?case by (rule nil)
  next
    case (Cons x rest)
    show ?case
    proof (cases "x \<in> V")
      case True
      with Cons show ?thesis by (auto intro: skip)
    next
      case False
      from Cons.prems have x: "x < length (objs h)" and r: "\<forall>y \<in> set rest. y < length (objs h)"
        by simp_all
      have "{..<length (objs h)} - insert x V \<subset> {..<length (objs h)} - V"
        using x False by auto
      then have "card ({..<length (objs h)} - insert x V) < card ({..<length (objs h)} - V)"
        by (intro psubset_card_mono) auto
      moreover have "\<forall>y \<in> set (rest @ filter (\<lambda>p. p \<notin> insert x V) (parents_of h x)).
                       y < length (objs h)"
        using r heap_ok_parents [OF ok x] by auto
      ultimately have "Q (rest @ filter (\<lambda>p. p \<notin> insert x V) (parents_of h x)) (insert x V)"
        by (rule less.hyps)
      with False x r show ?thesis by (intro visit)
    qed
  qed
qed

lemma bfs_loop_returns:
  assumes "heap_ok h" and "\<forall>x \<in> set q. x < length (objs h)"
  shows "\<exists>r. bfs_loop h m q V = Some r"
  using assms
proof (induction q V rule: bfs_induct)
  case Nil
  show ?case by (simp add: bfs_loop_Nil)
next
  case (Skip x rest V)
  then show ?case by (simp add: bfs_loop_Cons)
next
  case (Visit x rest V)
  then show ?case by (simp add: bfs_loop_Cons split: option.splits)
qed

lemma bfs_loop_closed_none:
  assumes "heap_ok h" and "\<forall>x \<in> set q. x < length (objs h)"
    and "set q \<subseteq> S"
    and "\<forall>x \<in> S. set (parents_of h x) \<subseteq> S \<and> map_of (slots_of h x) m = None"
  shows "bfs_loop h m q V = Some None"
  using assms(1,2,3)
proof (induction q V rule: bfs_induct)
  case Nil
  show ?case by (simp add: bfs_loop_Nil)
next
  case (Skip x rest V)
  then show ?case by (simp add: bfs_loop_Cons)
next
  case (Visit x rest V)
  from Visit.prems assms(4) have "map_of (slots_of h x) m = None" "set (parents_of h x) \<subseteq> S"
    by auto
  with Visit show ?case by (auto simp: bfs_loop_Cons)
qed

lemma level_append: "level h k (q1 @ q2) = level h k q1 @ level h k q2"
  by (induction k arbitrary: q1 q2) simp_all

lemma level_Nil: "level h k [] = []"
  by (induction k) simp_all

lemma level_Cons: "level h k (x # q) = level h k [x] @ level h k q"
  using level_append [of h k "[x]" q] by simp

lemma level_Suc_single: "level h (Suc k) [x] = level h k (parents_of h x)"
  by simp

lemma set_level: "set (level h k q) = (\<Union>x \<in> set q. set (level h k [x]))"
proof (induction q)
  case Nil
  show ?case by (simp add: level_Nil)
next
  case (Cons x q)
  show ?case by (subst level_Cons) (simp add: Cons.IH)
qed

lemma find_append_if:
  "find P (xs @ ys) = (case find P xs of None \<Rightarrow> find P ys | Some x \<Rightarrow> Some x)"
  by (induction xs) simp_all

lemma find_free: "\<forall>y \<in> set xs. \<not> P y \<Longrightarrow> find P xs = None"
  by (simp add: find_None_iff)

lemma rotate_first_in_level:
  assumes "\<not> has_slot h m x" and "first_in_level h m (x # r) k x0"
  shows "\<exists>k'. first_in_level h m (r @ parents_of h x) k' x0"
proof -
  have lv: "\<And>j. level h j (x # r) = level h j [x] @ level h j r"
    by (rule level_Cons)
  have lv': "\<And>j. level h j (r @ parents_of h x) = level h j r @ level h (Suc j) [x]"
    by (simp add: level_append)
  from assms(2) have free: "\<And>j y. j < k \<Longrightarrow> y \<in> set (level h j [x]) \<union> set (level h j r)
                             \<Longrightarrow> \<not> has_slot h m y"
    and fnd: "find (has_slot h m) (level h k [x] @ level h k r) = Some x0"
    unfolding first_in_level_def lv by auto
  show ?thesis
  proof (cases "find (has_slot h m) (level h k [x])")
    case None
    then have fx: "\<forall>y \<in> set (level h k [x]). \<not> has_slot h m y"
      by (simp add: find_None_iff)
    from None fnd have fr: "find (has_slot h m) (level h k r) = Some x0"
      by (simp add: find_append_if)
    have "\<forall>j < k. \<forall>y \<in> set (level h j r) \<union> set (level h (Suc j) [x]). \<not> has_slot h m y"
    proof (intro allI impI ballI)
      fix j y assume j: "j < k" and y: "y \<in> set (level h j r) \<union> set (level h (Suc j) [x])"
      show "\<not> has_slot h m y"
      proof (cases "Suc j = k")
        case True
        with y fx free [OF j] show ?thesis by auto
      next
        case False
        with j have "Suc j < k" by simp
        with y free [OF j] free [OF \<open>Suc j < k\<close>] show ?thesis by auto
      qed
    qed
    moreover have "find (has_slot h m) (level h k r @ level h (Suc k) [x]) = Some x0"
      using fr by (simp add: find_append_if)
    ultimately have "first_in_level h m (r @ parents_of h x) k x0"
      unfolding first_in_level_def lv' by simp
    then show ?thesis ..
  next
    case (Some y)
    with fnd have y: "find (has_slot h m) (level h k [x]) = Some x0"
      by (simp add: find_append_if)
    have "k \<noteq> 0"
    proof
      assume "k = 0"
      with y assms(1) show False by simp
    qed
    then obtain k1 where k: "k = Suc k1" by (cases k) auto
    have "\<forall>j < k1. \<forall>y \<in> set (level h j r) \<union> set (level h (Suc j) [x]). \<not> has_slot h m y"
    proof (intro allI impI ballI)
      fix j y assume j: "j < k1" and y: "y \<in> set (level h j r) \<union> set (level h (Suc j) [x])"
      from j k have "j < k" "Suc j < k" by simp_all
      with y free [of j y] free [of "Suc j" y] show "\<not> has_slot h m y" by blast
    qed
    moreover have "find (has_slot h m) (level h k1 r) = None"
      using free [of k1] k by (intro find_free) auto
    then have "find (has_slot h m) (level h k1 r @ level h (Suc k1) [x]) = Some x0"
      using y k by (simp add: find_append_if)
    ultimately have "first_in_level h m (r @ parents_of h x) k1 x0"
      unfolding first_in_level_def lv' by simp
    then show ?thesis ..
  qed
qed

lemma covered_descendant:
  assumes "covered h m V q" and "v \<in> V" and "y \<in> set (level h k [v])"
  shows "y \<in> V \<or> (\<exists>j < k. y \<in> set (level h j (filter (\<lambda>p. p \<notin> V) q)))"
  using assms(2,3)
proof (induction k arbitrary: v)
  case 0
  then show ?case by simp
next
  case (Suc k)
  from Suc.prems(2) have "y \<in> set (level h k (parents_of h v))" by simp
  then obtain p where p: "p \<in> set (parents_of h v)" and y: "y \<in> set (level h k [p])"
    by (subst (asm) set_level) auto
  show ?case
  proof (cases "p \<in> V")
    case True
    from Suc.IH [OF True y] show ?thesis by (auto intro: less_SucI)
  next
    case False
    with p assms(1) Suc.prems(1) have "p \<in> set (filter (\<lambda>p. p \<notin> V) q)"
      unfolding covered_def by auto
    with y have "y \<in> set (level h k (filter (\<lambda>p. p \<notin> V) q))"
      by (subst set_level) auto
    then show ?thesis by auto
  qed
qed

lemma level_filter_subset: "set (level h k (filter Q q)) \<subseteq> set (level h k q)"
  by (subst set_level, subst (2) set_level) auto

lemma drop_visited_first_in_level:
  assumes cov: "covered h m V q" and hit: "first_in_level h m q k x0"
  shows "first_in_level h m (filter (\<lambda>p. p \<notin> V) q) k x0"
proof -
  let ?qf = "filter (\<lambda>p. p \<notin> V) q"
  from hit have free: "\<forall>j < k. \<forall>y \<in> set (level h j q). \<not> has_slot h m y"
    and fnd: "find (has_slot h m) (level h k q) = Some x0"
    unfolding first_in_level_def by simp_all
  have free': "\<forall>j < k. \<forall>y \<in> set (level h j ?qf). \<not> has_slot h m y"
    using free level_filter_subset [of h _ "\<lambda>p. p \<notin> V" q] by blast
  have block: "\<forall>y \<in> set (level h k [v]). \<not> has_slot h m y" if "v \<in> V" for v
  proof
    fix y assume "y \<in> set (level h k [v])"
    from covered_descendant [OF cov that this] free' cov
    show "\<not> has_slot h m y" unfolding covered_def by auto
  qed
  have "find (has_slot h m) (level h k (filter (\<lambda>p. p \<notin> V) q')) = find (has_slot h m) (level h k q')"
    for q'
  proof (induction q')
    case Nil
    show ?case by simp
  next
    case (Cons a q')
    show ?case
    proof (cases "a \<in> V")
      case True
      then have "find (has_slot h m) (level h k [a]) = None"
        by (intro find_free block)
      with True Cons show ?thesis
        by (simp add: level_Cons [of h k a q'] find_append_if)
    next
      case False
      with Cons show ?thesis
        by (simp add: level_Cons [of h k a q'] level_Cons [of h k a "filter (\<lambda>p. p \<notin> V) q'"]
            find_append_if split: option.splits)
    qed
  qed
  with fnd free' show ?thesis unfolding first_in_level_def by simp
qed

lemma bfs_loop_first_in_level:
  assumes "heap_ok h" and "\<forall>x \<in> set q. x < length (objs h)"
    and "covered h m V q" and "first_in_level h m (filter (\<lambda>p. p \<notin> V) q) k x0"
  shows "bfs_loop h m q V = Some (map_of (slots_of h x0) m)"
  using assms
proof (induction q V arbitrary: k rule: bfs_induct)
  case Nil
  then show ?case by (simp add: first_in_level_def level_Nil)
next
  case (Skip x rest V)
  from Skip.prems(1) Skip.hyps(1) have "covered h m V rest"
    unfolding covered_def by auto
  with Skip show ?case by (simp add: bfs_loop_Cons)
next
  case (Visit x rest V)
  let ?r = "filter (\<lambda>p. p \<notin> V) rest"
  let ?V = "insert x V"
  let ?q = "rest @ filter (\<lambda>p. p \<notin> ?V) (parents_of h x)"
  from Visit.prems(2) Visit.hyps(1) have hit: "first_in_level h m (x # ?r) k x0" by simp
  show ?case
  proof (cases "has_slot h m x")
    case True
    have "k = 0"
    proof (rule ccontr)
      assume "k \<noteq> 0"
      with hit True show False unfolding first_in_level_def by (auto dest: spec [of _ 0])
    qed
    with hit True have "x0 = x" unfolding first_in_level_def by simp
    with True Visit.hyps(1) show ?thesis
      by (auto simp: bfs_loop_Cons has_slot_def)
  next
    case False
    from rotate_first_in_level [OF False hit]
    obtain k' where k': "first_in_level h m (?r @ parents_of h x) k' x0" ..
    have cov': "covered h m ?V (?r @ parents_of h x)"
      using Visit.prems(1) False unfolding covered_def by auto
    from drop_visited_first_in_level [OF cov' k']
    have "first_in_level h m (filter (\<lambda>p. p \<notin> ?V) (?r @ parents_of h x)) k' x0" .
    moreover have "filter (\<lambda>p. p \<notin> ?V) (?r @ parents_of h x) = filter (\<lambda>p. p \<notin> ?V) ?q"
      by (auto intro: filter_cong)
    moreover have "covered h m ?V ?q"
      using Visit.prems(1) False unfolding covered_def by auto
    ultimately have "bfs_loop h m ?q ?V = Some (map_of (slots_of h x0) m)"
      using Visit.IH by simp
    with False Visit.hyps(1) show ?thesis
      by (simp add: bfs_loop_Cons has_slot_def)
  qed
qed

lemma level_Suc_parents: "level h (Suc k) q = concat (map (parents_of h) (level h k q))"
  by (induction k arbitrary: q) simp_all

lemma bfs_lookup_returns:
  assumes "heap_ok h" and "self < length (objs h)"
  shows "\<exists>r. bfs_lookup h self m = Some r"
  unfolding bfs_lookup_def using assms by (intro bfs_loop_returns) simp_all

lemma bfs_lookup_closed_none:
  assumes "heap_ok h" and "self < length (objs h)" and "self \<in> S"
    and "\<forall>x \<in> S. set (parents_of h x) \<subseteq> S \<and> map_of (slots_of h x) m = None"
  shows "bfs_lookup h self m = Some None"
  unfolding bfs_lookup_def using assms by (intro bfs_loop_closed_none [where S = S]) simp_all

lemma bfs_lookup_first_in_level:
  assumes "heap_ok h" and "self < length (objs h)" and "first_in_level h m [self] k x"
  shows "bfs_lookup h self m = Some (map_of (slots_of h x) m)"
  unfolding bfs_lookup_def using assms
  by (intro bfs_loop_first_in_level [where k = k]) (simp_all add: covered_def)

section \<open>Fuel, message lists and errors\<close>














lemma MessageNotFound_inject: "MessageNotFound m = MessageNotFound m' \<longleftrightarrow> m = m'"
  by (simp add: MessageNotFound_def)






section \<open>Slots, parents, construction and copy\<close>

text \<open>
  Claim C6. \<^verbatim>\<open>make_parent\<close> raises exactly when the name is not a key of the
  receiver's slots, the exception is the "Slot ... does not exist" error, and the store
  it leaves is the store it found. When the name is a key, the object stored under it
  is appended to the receiver's parents, the slots and every other container stay as
  they were, so the object is both a slot value and a parent afterwards.
\<close>

theorem make_parent_raises_iff_absent:
  assumes "heap_ok h" and "self < length (objs h)"
  shows "(fst (make_parent h self name) \<noteq> None) = (map_of (slots_of h self) name = None)
       \<and> (map_of (slots_of h self) name = None \<longrightarrow>
            make_parent h self name = (Some (SlotNotFound name), h))
       \<and> (map_of (slots_of h self) name = Some v \<longrightarrow>
            fst (make_parent h self name) = None
          \<and> parents_of (snd (make_parent h self name)) self = parents_of h self @ [v]
          \<and> slots_of (snd (make_parent h self name)) self = slots_of h self
          \<and> objs (snd (make_parent h self name)) = objs h
          \<and> dicts (snd (make_parent h self name)) = dicts h
          \<and> mlists (snd (make_parent h self name)) = mlists h)"
proof -
  from assms have "parent_slots (objs h ! self) < length (plists h)"
    unfolding heap_ok_def by simp
  then show ?thesis
    by (auto simp: make_parent_def Let_def parents_of_def slots_of_def
        split: option.splits)
qed

theorem make_parent_raises_iff_absent_witness:
  "heap_ok store_parent \<and> 2 < length (objs store_parent)
   \<and> map_of (slots_of store_parent 2) ''q'' = None
   \<and> make_parent store_parent 2 ''q'' = (Some (SlotNotFound ''q''), store_parent)
   \<and> map_of (slots_of store_parent 2) ''p'' = Some 1
   \<and> fst (make_parent store_parent 2 ''p'') = None
   \<and> parents_of (snd (make_parent store_parent 2 ''p'')) 2 = [1]
   \<and> slots_of (snd (make_parent store_parent 2 ''p'')) 2 = [(''p'', 1)]"
  using make_parent_raises_iff_absent [of store_parent 2 "''q''"]
        make_parent_raises_iff_absent [of store_parent 2 "''p''" 1]
  by (simp add: store_parent_def heap_ok_def slots_of_def parents_of_def make_parent_def)

text \<open>
  Claim C7. \<^verbatim>\<open>copy\<close> leaves every existing object and the contents of its containers
  as they were. The copy is a new object; its three containers are new ones (none is
  the original's), holding the same references as the original's; its primitive value
  and function are the original's. Assigning a slot on the copy does not change the
  original's slots, and assigning on the original does not change the copy's.
\<close>

theorem copy_is_shallow_and_pure:
  assumes "heap_ok h" and "self < length (objs h)" and "copy h self = (c, h')"
  shows "(\<forall>a < length (objs h). objs h' ! a = objs h ! a \<and> slots_of h' a = slots_of h a
            \<and> parents_of h' a = parents_of h a \<and> messages_of h' a = messages_of h a)
       \<and> c = length (objs h)
       \<and> slots (objs h' ! c) \<noteq> slots (objs h' ! self)
       \<and> parent_slots (objs h' ! c) \<noteq> parent_slots (objs h' ! self)
       \<and> messages (objs h' ! c) \<noteq> messages (objs h' ! self)
       \<and> slots_of h' c = slots_of h self
       \<and> parents_of h' c = parents_of h self
       \<and> messages_of h' c = messages_of h self
       \<and> primitive_value (objs h' ! c) = primitive_value (objs h ! self)
       \<and> primitive_function (objs h' ! c) = primitive_function (objs h ! self)
       \<and> (\<forall>name x. slots_of (assign_slot h' c name x) self = slots_of h self
                   \<and> slots_of (assign_slot h' c name x) c = AList.update name x (slots_of h self)
                   \<and> slots_of (assign_slot h' self name x) c = slots_of h self
                   \<and> slots_of (assign_slot h' self name x) self = AList.update name x (slots_of h self))"
proof -
  from assms(3) have c: "c = length (objs h)" and h': "h' = snd (copy h self)"
    using copy_fst [of h self] by simp_all
  have old: "objs (snd (copy h self)) ! self = objs h ! self"
    using assms(2) by (simp add: copy_objs_old)
  note refs = heap_ok_refs [OF assms(1,2)]
  have ne: "slots (objs h' ! c) \<noteq> slots (objs h' ! self)"
       "parent_slots (objs h' ! c) \<noteq> parent_slots (objs h' ! self)"
       "messages (objs h' ! c) \<noteq> messages (objs h' ! self)"
    using refs copy_fresh [of h self] old by (simp_all add: c h')
  have ok': "heap_ok h'" using assms(1,2) by (simp add: h' heap_ok_copy)
  have len: "length (objs h') = Suc (length (objs h))" by (simp add: h' copy_length_objs)
  have refs': "slots (objs h' ! c) < length (dicts h')" "slots (objs h' ! self) < length (dicts h')"
    using heap_ok_refs(1) [OF ok'] assms(2) len c by simp_all
  have cont: "slots_of h' c = slots_of h self" "slots_of h' self = slots_of h self"
    using copy_contents(1) [of h self] copy_old_contents(1) [OF assms(1,2), of self]
    by (simp_all add: c h')
  have "\<forall>a < length (objs h). objs h' ! a = objs h ! a \<and> slots_of h' a = slots_of h a
            \<and> parents_of h' a = parents_of h a \<and> messages_of h' a = messages_of h a"
    using assms(1) by (simp add: h' copy_objs_old copy_old_contents)
  moreover have "\<forall>name x. slots_of (assign_slot h' c name x) self = slots_of h self
                   \<and> slots_of (assign_slot h' c name x) c = AList.update name x (slots_of h self)
                   \<and> slots_of (assign_slot h' self name x) c = slots_of h self
                   \<and> slots_of (assign_slot h' self name x) self = AList.update name x (slots_of h self)"
    using ne(1) refs' cont by (simp add: assign_slot_other assign_slot_self)
  ultimately show ?thesis
    using ne c copy_contents [of h self] by (simp add: h')
qed

theorem copy_is_shallow_and_pure_witness:
  "heap_ok store_parent \<and> 1 < length (objs store_parent)
   \<and> fst (copy store_parent 1) = 3
   \<and> objs (snd (copy store_parent 1)) ! 1 = objs store_parent ! 1
   \<and> slots (objs (snd (copy store_parent 1)) ! 3) = 3
   \<and> slots (objs (snd (copy store_parent 1)) ! 1) = 1
   \<and> slots_of (snd (copy store_parent 1)) 3 = [(''color'', 0)]
   \<and> slots_of (assign_slot (snd (copy store_parent 1)) 3 ''b'' 2) 1 = [(''color'', 0)]
   \<and> slots_of (assign_slot (snd (copy store_parent 1)) 3 ''b'' 2) 3 = [(''color'', 0), (''b'', 2)]
   \<and> slots_of (assign_slot (snd (copy store_parent 1)) 1 ''b'' 2) 3 = [(''color'', 0)]"
  using copy_is_shallow_and_pure [where h = store_parent and self = 1
      and c = "fst (copy store_parent 1)" and h' = "snd (copy store_parent 1)"]
  by (simp add: store_parent_def heap_ok_def copy_unfold slots_of_def assign_slot_def Let_def)

text \<open>
  Claim C10. A primitive value is set when it is not \<^verbatim>\<open>None\<close>, whatever its truth
  value: with no messages and no primitive function, \<^verbatim>\<open>evaluate\<close> returns a copy (an
  object other than the receiver, with the same primitive value), and the rendering is
  \<^verbatim>\<open>str\<close> of the value, also for \<^verbatim>\<open>0\<close>, \<^verbatim>\<open>False\<close> and the empty string.
\<close>

theorem falsy_primitive_value_is_set:
  assumes "primitive_value (objs h ! self) = Some v" and "messages_of h self = []"
    and "primitive_function (objs h ! self) = None" and "self < length (objs h)"
  shows "evaluate P (Suc n) h self = Some (Inr (VObj (fst (copy h self))), snd (copy h self))
       \<and> fst (copy h self) \<noteq> self
       \<and> primitive_value (objs (snd (copy h self)) ! fst (copy h self)) = Some v
       \<and> str_obj R h self = py_str v
       \<and> (v = PInt 0 \<longrightarrow> str_obj R h self = ''0'')
       \<and> (v = PBool False \<longrightarrow> str_obj R h self = ''False'')
       \<and> (v = PStr [] \<longrightarrow> str_obj R h self = [])"
  using assms copy_contents(4) [of h self]
  by (simp add: copy_fst str_obj_def str_int_def case_prod_beta)

theorem falsy_primitive_value_is_set_witness:
  "primitive_value (objs store_falsy ! 0) = Some (PInt 0)
   \<and> primitive_value (objs store_falsy ! 1) = Some (PBool False)
   \<and> primitive_value (objs store_falsy ! 2) = Some (PStr [])
   \<and> messages_of store_falsy 0 = [] \<and> messages_of store_falsy 1 = []
   \<and> messages_of store_falsy 2 = []
   \<and> primitive_function (objs store_falsy ! 0) = None
   \<and> primitive_function (objs store_falsy ! 1) = None
   \<and> primitive_function (objs store_falsy ! 2) = None
   \<and> 2 < length (objs store_falsy)
   \<and> evaluate (\<lambda>f. echo) (Suc 0) store_falsy 0
         = Some (Inr (VObj 3), snd (copy store_falsy 0))
   \<and> primitive_value (objs (snd (copy store_falsy 0)) ! 3) = Some (PInt 0)
   \<and> evaluate (\<lambda>f. echo) (Suc 0) store_falsy 1
         = Some (Inr (VObj 3), snd (copy store_falsy 1))
   \<and> primitive_value (objs (snd (copy store_falsy 1)) ! 3) = Some (PBool False)
   \<and> evaluate (\<lambda>f. echo) (Suc 0) store_falsy 2
         = Some (Inr (VObj 3), snd (copy store_falsy 2))
   \<and> primitive_value (objs (snd (copy store_falsy 2)) ! 3) = Some (PStr [])
   \<and> str_obj id store_falsy 0 = ''0''
   \<and> str_obj id store_falsy 1 = ''False''
   \<and> str_obj id store_falsy 2 = []"
  using falsy_primitive_value_is_set [of store_falsy 0 "PInt 0" "\<lambda>f. echo" 0 id]
        falsy_primitive_value_is_set [of store_falsy 1 "PBool False" "\<lambda>f. echo" 0 id]
        falsy_primitive_value_is_set [of store_falsy 2 "PStr []" "\<lambda>f. echo" 0 id]
  by (simp add: store_falsy_def messages_of_def copy_unfold str_int_def)

text \<open>
  Claim C9. \<^verbatim>\<open>__init__\<close> keeps a non-empty container argument itself: the object's
  field is the reference passed in, so putting new contents into that container
  afterwards shows through the object. For \<^verbatim>\<open>None\<close> or an empty container the field
  is a container that did not exist before, and it is empty whatever is put into the
  containers that did exist, the one passed in among them.
\<close>

theorem constructor_stores_truthy_arguments_by_reference:
  assumes "SelfObjectModel h sa pa ma pv pf = (a, h')"
  shows "(sa = Some rs \<and> rs < length (dicts h) \<and> dicts h ! rs \<noteq> [] \<longrightarrow>
            slots (objs h' ! a) = rs
          \<and> (\<forall>d. slots_of (h'\<lparr>dicts := (dicts h')[rs := d]\<rparr>) a = d))
       \<and> (sa = None \<or> (sa = Some rs \<and> dicts h ! rs = []) \<longrightarrow>
            slots (objs h' ! a) = length (dicts h) \<and> slots_of h' a = []
          \<and> (\<forall>r' < length (dicts h). \<forall>d. slots_of (h'\<lparr>dicts := (dicts h')[r' := d]\<rparr>) a = []))
       \<and> (pa = Some rp \<and> rp < length (plists h) \<and> plists h ! rp \<noteq> [] \<longrightarrow>
            parent_slots (objs h' ! a) = rp
          \<and> (\<forall>ps. parents_of (h'\<lparr>plists := (plists h')[rp := ps]\<rparr>) a = ps))
       \<and> (pa = None \<or> (pa = Some rp \<and> plists h ! rp = []) \<longrightarrow>
            parent_slots (objs h' ! a) = length (plists h) \<and> parents_of h' a = []
          \<and> (\<forall>r' < length (plists h). \<forall>ps. parents_of (h'\<lparr>plists := (plists h')[r' := ps]\<rparr>) a = []))
       \<and> (ma = Some rm \<and> rm < length (mlists h) \<and> mlists h ! rm \<noteq> [] \<longrightarrow>
            messages (objs h' ! a) = rm
          \<and> (\<forall>ms. messages_of (h'\<lparr>mlists := (mlists h')[rm := ms]\<rparr>) a = ms))
       \<and> (ma = None \<or> (ma = Some rm \<and> mlists h ! rm = []) \<longrightarrow>
            messages (objs h' ! a) = length (mlists h) \<and> messages_of h' a = []
          \<and> (\<forall>r' < length (mlists h). \<forall>ms. messages_of (h'\<lparr>mlists := (mlists h')[r' := ms]\<rparr>) a = []))"
  using init_slots [OF assms, of rs] init_parent_slots [OF assms, of rp]
    init_messages [OF assms, of rm]
  by blast

theorem constructor_stores_truthy_arguments_by_reference_witness:
  "slots (objs (snd (SelfObjectModel store_parent (Some 1) None (Some 0) None None))
            ! fst (SelfObjectModel store_parent (Some 1) None (Some 0) None None)) = 1
   \<and> slots_of ((snd (SelfObjectModel store_parent (Some 1) None (Some 0) None None))
        \<lparr>dicts := (dicts (snd (SelfObjectModel store_parent (Some 1) None (Some 0) None None)))
                     [1 := [(''color'', 0), (''size'', 0)]]\<rparr>)
        (fst (SelfObjectModel store_parent (Some 1) None (Some 0) None None))
      = [(''color'', 0), (''size'', 0)]
   \<and> parent_slots (objs (snd (SelfObjectModel store_parent (Some 1) None (Some 0) None None))
            ! fst (SelfObjectModel store_parent (Some 1) None (Some 0) None None)) = 3
   \<and> messages (objs (snd (SelfObjectModel store_parent (Some 1) None (Some 0) None None))
            ! fst (SelfObjectModel store_parent (Some 1) None (Some 0) None None)) = 3
   \<and> messages_of ((snd (SelfObjectModel store_parent (Some 1) None (Some 0) None None))
        \<lparr>mlists := (mlists (snd (SelfObjectModel store_parent (Some 1) None (Some 0) None None)))
                     [0 := [''go'']]\<rparr>)
        (fst (SelfObjectModel store_parent (Some 1) None (Some 0) None None))
      = []
   \<and> plists store_bfs ! 0 = [1, 2] \<and> mlists store_nested ! 1 = [''k'']
   \<and> slots (objs (snd (SelfObjectModel store_bfs None (Some 0) None None None))
            ! fst (SelfObjectModel store_bfs None (Some 0) None None None)) = 7
   \<and> parent_slots (objs (snd (SelfObjectModel store_bfs None (Some 0) None None None))
            ! fst (SelfObjectModel store_bfs None (Some 0) None None None)) = 0
   \<and> parents_of ((snd (SelfObjectModel store_bfs None (Some 0) None None None))
        \<lparr>plists := (plists (snd (SelfObjectModel store_bfs None (Some 0) None None None)))
                     [0 := [1, 2, 3]]\<rparr>)
        (fst (SelfObjectModel store_bfs None (Some 0) None None None))
      = [1, 2, 3]
   \<and> messages (objs (snd (SelfObjectModel store_nested None None (Some 1) None None))
            ! fst (SelfObjectModel store_nested None None (Some 1) None None)) = 1
   \<and> messages_of ((snd (SelfObjectModel store_nested None None (Some 1) None None))
        \<lparr>mlists := (mlists (snd (SelfObjectModel store_nested None None (Some 1) None None)))
                     [1 := [''k'', ''j'']]\<rparr>)
        (fst (SelfObjectModel store_nested None None (Some 1) None None))
      = [''k'', ''j'']"
  using constructor_stores_truthy_arguments_by_reference
    [where h = store_parent and sa = "Some 1" and pa = None and ma = "Some 0" and pv = None
       and pf = None and rs = 1 and rp = 0 and rm = 0
       and a = "fst (SelfObjectModel store_parent (Some 1) None (Some 0) None None)"
       and h' = "snd (SelfObjectModel store_parent (Some 1) None (Some 0) None None)"]
    constructor_stores_truthy_arguments_by_reference
    [where h = store_bfs and sa = None and pa = "Some 0" and ma = None and pv = None
       and pf = None and rs = 0 and rp = 0 and rm = 0
       and a = "fst (SelfObjectModel store_bfs None (Some 0) None None None)"
       and h' = "snd (SelfObjectModel store_bfs None (Some 0) None None None)"]
    constructor_stores_truthy_arguments_by_reference
    [where h = store_nested and sa = None and pa = None and ma = "Some 1" and pv = None
       and pf = None and rs = 0 and rp = 0 and rm = 1
       and a = "fst (SelfObjectModel store_nested None None (Some 1) None None)"
       and h' = "snd (SelfObjectModel store_nested None None (Some 1) None None)"]
  by (simp add: store_parent_def store_bfs_def store_nested_def SelfObjectModel_def new_dict_def
      new_plist_def new_mlist_def slots_of_def messages_of_def parents_of_def)

section \<open>Lookup\<close>

text \<open>
  Claim C2. The lookup returns the slot of the first object that has the name in
  breadth-first order: when no object of the levels before \<open>k\<close> has it and \<open>x\<close> is the
  first object of level \<open>k\<close> that has it, the result is the slot of \<open>x\<close>; when no
  object of any level has it, the result is \<^verbatim>\<open>None\<close>. A slot of the receiver itself
  (level 0) therefore wins over every parent. In the store \<open>store_bfs\<close> the receiver 0
  has the parents \<^verbatim>\<open>P1\<close> and \<^verbatim>\<open>P2\<close>, the name is in \<^verbatim>\<open>P2\<close> and in the parent of
  \<^verbatim>\<open>P1\<close>, and the lookup returns the slot of \<^verbatim>\<open>P2\<close>.
\<close>

theorem lookup_is_breadth_first:
  assumes "heap_ok h" and "self < length (objs h)"
  shows "(first_in_level h m [self] k x \<longrightarrow>
            bfs_lookup h self m = Some (map_of (slots_of h x) m) \<and> has_slot h m x)
       \<and> ((\<forall>k. \<forall>y \<in> set (level h k [self]). \<not> has_slot h m y) \<longrightarrow>
            bfs_lookup h self m = Some None)
       \<and> (map_of (slots_of h self) m = Some v \<longrightarrow> bfs_lookup h self m = Some (Some v))"
proof (intro conjI impI)
  assume f: "first_in_level h m [self] k x"
  with assms show "bfs_lookup h self m = Some (map_of (slots_of h x) m)"
    by (rule bfs_lookup_first_in_level)
  from f have "find (has_slot h m) (level h k [self]) = Some x"
    unfolding first_in_level_def by simp
  then show "has_slot h m x" by (auto simp: find_Some_iff)
next
  assume none: "\<forall>k. \<forall>y \<in> set (level h k [self]). \<not> has_slot h m y"
  let ?S = "\<Union>k. set (level h k [self])"
  have "self \<in> ?S" by (auto intro: exI [of _ 0])
  moreover have "\<forall>x \<in> ?S. set (parents_of h x) \<subseteq> ?S \<and> map_of (slots_of h x) m = None"
  proof
    fix x assume "x \<in> ?S"
    then obtain k where k: "x \<in> set (level h k [self])" by auto
    then have "set (parents_of h x) \<subseteq> set (level h (Suc k) [self])"
      unfolding level_Suc_parents by auto
    then have "set (parents_of h x) \<subseteq> ?S" by blast
    moreover from none k have "map_of (slots_of h x) m = None"
      by (auto simp: has_slot_def)
    ultimately show "set (parents_of h x) \<subseteq> ?S \<and> map_of (slots_of h x) m = None" ..
  qed
  ultimately show "bfs_lookup h self m = Some None"
    using assms by (intro bfs_lookup_closed_none [where S = ?S])
next
  assume v: "map_of (slots_of h self) m = Some v"
  then have "first_in_level h m [self] 0 self"
    by (simp add: first_in_level_def has_slot_def)
  with assms have "bfs_lookup h self m = Some (map_of (slots_of h self) m)"
    by (rule bfs_lookup_first_in_level)
  with v show "bfs_lookup h self m = Some (Some v)" by simp
qed

theorem lookup_is_breadth_first_witness:
  "heap_ok store_bfs \<and> 0 < length (objs store_bfs) \<and> 6 < length (objs store_bfs)
   \<and> level store_bfs 1 [0] = [1, 2] \<and> level store_bfs 2 [0] = [3]
   \<and> first_in_level store_bfs ''k'' [0] 1 2
   \<and> bfs_lookup store_bfs 0 ''k'' = Some (Some 5)
   \<and> map_of (slots_of store_bfs 6) ''k'' = Some 4
   \<and> map_of (slots_of store_bfs 2) ''k'' = Some 5
   \<and> bfs_lookup store_bfs 6 ''k'' = Some (Some 4)
   \<and> parents_of store_bfs 5 = [] \<and> slots_of store_bfs 5 = []
   \<and> bfs_lookup store_bfs 5 ''k'' = Some None"
proof -
  have none: "\<forall>k. \<forall>y \<in> set (level store_bfs k [5]). \<not> has_slot store_bfs ''k'' y"
  proof
    fix k
    show "\<forall>y \<in> set (level store_bfs k [5]). \<not> has_slot store_bfs ''k'' y"
    proof (cases k)
      case 0
      then show ?thesis by (simp add: has_slot_def slots_of_def store_bfs_def)
    next
      case (Suc j)
      have "parents_of store_bfs 5 = []" by (simp add: parents_of_def store_bfs_def)
      with Suc show ?thesis by (simp add: level_Nil)
    qed
  qed
  have ok: "heap_ok store_bfs" by (simp add: store_bfs_def heap_ok_def)
  have "5 < length (objs store_bfs)" by (simp add: store_bfs_def)
  from lookup_is_breadth_first [OF ok this, of "''k''" 0 5 0] none
  have "bfs_lookup store_bfs 5 ''k'' = Some None" by blast
  then show ?thesis
    using lookup_is_breadth_first [of store_bfs 0 "''k''" 1 2]
          lookup_is_breadth_first [of store_bfs 6 "''k''" 0 6 4]
    by (simp add: store_bfs_def heap_ok_def first_in_level_def has_slot_def slots_of_def
        parents_of_def eval_nat_numeral)
qed

text \<open>
  Claim C3. On every store the lookup returns, whatever cycles the parents form: the
  store is finite and no object is visited twice. When the receiver lies in a set of
  objects that contains the parents of its members and none of whose members has the
  name, the lookup returns \<^verbatim>\<open>None\<close> and \<^verbatim>\<open>send_message\<close> raises the "Message ... not
  found" error. Two objects that are each other's parent are such a set.
\<close>

theorem lookup_terminates_on_cycles:
  assumes "heap_ok h" and "self < length (objs h)"
  shows "(\<exists>r. bfs_lookup h self m = Some r)
       \<and> (self \<in> S \<and> (\<forall>x \<in> S. set (parents_of h x) \<subseteq> S \<and> map_of (slots_of h x) m = None) \<longrightarrow>
            bfs_lookup h self m = Some None
          \<and> send_message P (Suc n) h self m = Some (Inl (MessageNotFound m), h))"
  using bfs_lookup_returns [OF assms, of m] bfs_lookup_closed_none [OF assms, of S m]
  by auto

theorem lookup_terminates_on_cycles_witness:
  "heap_ok store_cycle \<and> 0 < length (objs store_cycle)
   \<and> parents_of store_cycle 0 = [1] \<and> parents_of store_cycle 1 = [0]
   \<and> bfs_lookup store_cycle 0 ''missing'' = Some None
   \<and> send_message (\<lambda>f. echo) (Suc 0) store_cycle 0 ''missing''
        = Some (Inl (MessageNotFound ''missing''), store_cycle)"
  using lookup_terminates_on_cycles [of store_cycle 0 "''missing''" "{0, 1}" "\<lambda>f. echo" 0]
  by (simp add: store_cycle_def heap_ok_def slots_of_def parents_of_def)

section \<open>Evaluation\<close>




section \<open>Sending messages\<close>

text \<open>
  Claim C4, as the code has it. When the lookup finds nothing, \<^verbatim>\<open>send_message\<close>
  raises the "Message ... not found" error that names the message, and leaves the
  store as it was. When the lookup finds an object, \<^verbatim>\<open>send_message\<close> is the evaluation
  of that object: it has exactly the outcomes of \<^verbatim>\<open>evaluate\<close> on it, the errors that
  evaluation raises among them.
\<close>

theorem send_message_evaluates_found_object:
  "(bfs_lookup h self m = Some None \<longrightarrow>
      send_message P (Suc n) h self m = Some (Inl (MessageNotFound m), h))
   \<and> (bfs_lookup h self m = Some (Some t) \<longrightarrow>
        send_message P (Suc n) h self m = evaluate P n h t
      \<and> (sends P h self m r \<longleftrightarrow> evaluates P h t r))
   \<and> (MessageNotFound m = MessageNotFound m' \<longleftrightarrow> m = m')"
proof (intro conjI impI)
  assume t: "bfs_lookup h self m = Some (Some t)"
  then show "send_message P (Suc n) h self m = evaluate P n h t" by simp
  show "sends P h self m r \<longleftrightarrow> evaluates P h t r"
  proof
    assume "sends P h self m r"
    then obtain k where k: "send_message P k h self m = Some r" unfolding sends_def ..
    then obtain k' where "k = Suc k'" by (cases k) simp_all
    with k t have "evaluate P k' h t = Some r" by simp
    then show "evaluates P h t r" unfolding evaluates_def ..
  next
    assume "evaluates P h t r"
    then obtain k where "evaluate P k h t = Some r" unfolding evaluates_def ..
    with t have "send_message P (Suc k) h self m = Some r" by simp
    then show "sends P h self m r" unfolding sends_def ..
  qed
qed (simp_all add: MessageNotFound_inject)

theorem send_message_evaluates_found_object_witness:
  "bfs_lookup store_cycle 0 ''missing'' = Some None
   \<and> send_message (\<lambda>f. echo) (Suc 0) store_cycle 0 ''missing''
        = Some (Inl (MessageNotFound ''missing''), store_cycle)
   \<and> bfs_lookup store_bfs 0 ''k'' = Some (Some 5)
   \<and> send_message (\<lambda>f. echo) (Suc (Suc 0)) store_bfs 0 ''k''
        = Some (Inr (VObj 7), snd (copy store_bfs 5))
   \<and> evaluate (\<lambda>f. echo) (Suc 0) store_bfs 5 = Some (Inr (VObj 7), snd (copy store_bfs 5))"
  using send_message_evaluates_found_object
          [of store_cycle 0 "''missing''" "\<lambda>f. echo" 0 0 "(Inr VNone, store_cycle)" "''missing''"]
        send_message_evaluates_found_object
          [of store_bfs 0 "''k''" "\<lambda>f. echo" "Suc 0" 5 "(Inr VNone, store_bfs)" "''k''"]
  by (simp add: store_cycle_def store_bfs_def bfs_lookup_def bfs_loop_Cons bfs_loop_Nil
      slots_of_def parents_of_def messages_of_def copy_unfold Let_def)

text \<open>
  The claim as stated, with "if and only if", fails: in \<open>store_nested\<close> the lookup of
  \<^verbatim>\<open>k\<close> from object 0 finds object 1, whose evaluation sends \<^verbatim>\<open>k\<close> to a copy of
  object 1 that has no such slot; \<^verbatim>\<open>send_message\<close> raises the error naming \<^verbatim>\<open>k\<close>
  although its own lookup succeeded.
\<close>

theorem send_message_raises_although_lookup_finds:
  "bfs_lookup store_nested 0 ''k'' = Some (Some 1)
   \<and> map_option fst (send_message (\<lambda>f. echo) (Suc (Suc (Suc (Suc 0)))) store_nested 0 ''k'')
       = Some (Inl (MessageNotFound ''k''))"
  by (simp add: store_nested_def bfs_lookup_def bfs_loop_Cons bfs_loop_Nil
      slots_of_def parents_of_def messages_of_def copy_unfold Let_def)







end
